theory Spec2Isabelle
  imports Main "HOL-Library.Word"
begin

section \<open>Go runtime values used by the queue server\<close>

text \<open>
  Every lock-protected method of \<^verbatim>\<open>main.go\<close> is one atomic step of the model. A step
  either returns, panics (a Go run-time panic), or stays blocked on a channel operation.
\<close>

datatype panic =
    MakesliceLenOutOfRange
  | IndexOutOfRange
  | SendOnClosedChannel
  | CloseOfClosedChannel

datatype 'a outcome = Panic panic | Blocked | Returns 'a

text \<open>
  A \<^verbatim>\<open>chan string\<close> value is a reference; two handles are equal when they are the same
  channel. The model names channels by numbers and keeps their contents in a heap.
  \<^verbatim>\<open>make(chan string, 1)\<close> gives a channel with one buffer slot.
\<close>

type_synonym chan = nat

record chanState =
  buf :: "string list"
  isClosed :: bool

type_synonym heap = "chan \<Rightarrow> chanState"

definition chanCap :: nat where
  "chanCap = 1"

definition newChan :: chanState where
  "newChan = \<lparr>buf = [], isClosed = False\<rparr>"

definition emptyHeap :: heap where
  "emptyHeap = (\<lambda>c. newChan)"

text \<open>\<^verbatim>\<open>ch <- msg\<close>: panics on a closed channel, blocks while the buffer is full.\<close>

definition chan_send :: "heap \<Rightarrow> chan \<Rightarrow> string \<Rightarrow> heap outcome" where
  "chan_send h c msg =
     (if isClosed (h c) then Panic SendOnClosedChannel
      else if length (buf (h c)) < chanCap
           then Returns (h(c := (h c)\<lparr>buf := buf (h c) @ [msg]\<rparr>))
      else Blocked)"

text \<open>\<^verbatim>\<open><-ch\<close>: takes the oldest buffered value; on an empty channel it blocks, or yields
  the zero value once the channel is closed.\<close>

definition chan_recv :: "heap \<Rightarrow> chan \<Rightarrow> (string \<times> heap) outcome" where
  "chan_recv h c =
     (case buf (h c) of
        m # ms \<Rightarrow> Returns (m, h(c := (h c)\<lparr>buf := ms\<rparr>))
      | [] \<Rightarrow> if isClosed (h c) then Returns ('''', h) else Blocked)"

text \<open>\<^verbatim>\<open>close(ch)\<close>.\<close>

definition chan_close :: "heap \<Rightarrow> chan \<Rightarrow> heap outcome" where
  "chan_close h c =
     (if isClosed (h c) then Panic CloseOfClosedChannel
      else Returns (h(c := (h c)\<lparr>isClosed := True\<rparr>)))"

text \<open>
  Reading \<^verbatim>\<open>m[key]\<close> from a map of slices gives the nil slice (length 0) when the key is
  absent; \<^verbatim>\<open>append\<close> treats nil as the empty slice.
\<close>

fun index_or_nil :: "'a list option \<Rightarrow> 'a list" where
  "index_or_nil None = []"
| "index_or_nil (Some xs) = xs"

section \<open>The message store\<close>

text \<open>
  \<^verbatim>\<open>type store struct { mx sync.Mutex; data map[string][]string }\<close>.
  The mutex makes \<^verbatim>\<open>push\<close> and \<^verbatim>\<open>pop\<close> atomic; the state is the map \<^verbatim>\<open>data\<close>.
\<close>

type_synonym store = "string \<rightharpoonup> string list"

definition newStore :: store where
  "newStore = Map.empty"

definition push :: "store \<Rightarrow> string \<Rightarrow> string \<Rightarrow> store" where
  "push s key msg = s(key \<mapsto> index_or_nil (s key) @ [msg])"

text \<open>\<^verbatim>\<open>popSlice\<close> copies \<^verbatim>\<open>s[1:]\<close> into a new slice, so the result shares nothing
  with its argument.\<close>

fun popSlice :: "string list \<Rightarrow> string \<times> string list" where
  "popSlice [] = ('''', [])"
| "popSlice (item # rest) = (item, rest)"

definition pop :: "store \<Rightarrow> string \<Rightarrow> (string \<times> bool) \<times> store" where
  "pop s key =
     (case s key of
        None \<Rightarrow> (('''', False), s)
      | Some vals \<Rightarrow>
          if length vals = 0 then (('''', False), s)
          else (case popSlice vals of
                  (v, newValues) \<Rightarrow>
                    if length newValues = 0 then ((v, True), s(key := None))
                    else ((v, True), s(key \<mapsto> newValues))))"

section \<open>The waiter registry\<close>

text \<open>
  \<^verbatim>\<open>type channelPool struct { pool map[string][](chan string); mx sync.Mutex }\<close>.
  As for the store, the state is the map and each method is one atomic step.
\<close>

type_synonym channelPool = "string \<rightharpoonup> chan list"

definition NewHandlerPool :: channelPool where
  "NewHandlerPool = Map.empty"

definition addToQueue :: "channelPool \<Rightarrow> string \<Rightarrow> chan \<Rightarrow> channelPool" where
  "addToQueue p queueName ch = p(queueName \<mapsto> index_or_nil (p queueName) @ [ch])"

text \<open>
  The \<^verbatim>\<open>for i, v := range s\<close> loop of \<^verbatim>\<open>removeItem\<close>: \<open>i\<close> is the index reached and
  the last argument the elements still to visit. At the first element equal to \<open>item\<close>
  the function returns nil for a one-element slice, otherwise the copy of
  \<^verbatim>\<open>append(s[:i], s[i+1:]...)\<close>; with no such element it returns \<open>s\<close> itself. The
  \<^verbatim>\<open>append\<close> overwrites the array behind \<open>s\<close>, which nothing reads afterwards: the
  caller stores the copy.
\<close>

fun removeItem_range :: "chan list \<Rightarrow> chan \<Rightarrow> nat \<Rightarrow> chan list \<Rightarrow> chan list" where
  "removeItem_range s item i [] = s"
| "removeItem_range s item i (v # rest) =
     (if v = item
      then (if length s = 1 then [] else take i s @ drop (Suc i) s)
      else removeItem_range s item (Suc i) rest)"

text \<open>
  \<^verbatim>\<open>removeItem\<close> starts with \<^verbatim>\<open>make([]chan string, len(s)-1)\<close>, before the loop. For
  an empty \<open>s\<close> the length asked for is \<open>-1\<close> and \<^verbatim>\<open>make\<close> panics.
\<close>

definition removeItem :: "chan list \<Rightarrow> chan \<Rightarrow> chan list outcome" where
  "removeItem s item =
     (if length s = 0 then Panic MakesliceLenOutOfRange
      else Returns (removeItem_range s item 0 s))"

definition removeFromQueue :: "channelPool \<Rightarrow> string \<Rightarrow> chan \<Rightarrow> channelPool outcome" where
  "removeFromQueue p queueName ch =
     (case removeItem (index_or_nil (p queueName)) ch of
        Panic e \<Rightarrow> Panic e
      | Blocked \<Rightarrow> Blocked
      | Returns new \<Rightarrow>
          if length new = 0 then Returns (p(queueName := None))
          else Returns (p(queueName \<mapsto> new)))"

text \<open>
  \<^verbatim>\<open>sendMessage\<close> reads \<^verbatim>\<open>p.pool\<close> and never assigns to it, so its result is the
  flag and the heap after \<^verbatim>\<open>handlers[0] <- msg\<close>. The send happens inside the locked
  region.
\<close>

definition sendMessage ::
  "channelPool \<Rightarrow> heap \<Rightarrow> string \<Rightarrow> string \<Rightarrow> (bool \<times> heap) outcome" where
  "sendMessage p h key msg =
     (case p key of
        None \<Rightarrow> Returns (False, h)
      | Some handlers \<Rightarrow>
          (case handlers of
             [] \<Rightarrow> Panic IndexOutOfRange
           | c # _ \<Rightarrow>
               (case chan_send h c msg of
                  Panic e \<Rightarrow> Panic e
                | Blocked \<Rightarrow> Blocked
                | Returns h' \<Rightarrow> Returns (True, h'))))"

section \<open>Reading the request\<close>

text \<open>
  Of \<^verbatim>\<open>*url.URL\<close> the handlers use the path and \<^verbatim>\<open>Query().Get\<close>, which gives the first
  value of a parameter, or the empty string when the parameter is absent.
\<close>

record url =
  Path :: string
  Query :: "(string \<times> string) list"

definition Get :: "(string \<times> string) list \<Rightarrow> string \<Rightarrow> string" where
  "Get q k = (case map_of q k of None \<Rightarrow> '''' | Some v \<Rightarrow> v)"

text \<open>
  Go's \<^verbatim>\<open>strings.SplitN(s, sep, n)\<close> for a one-byte separator and \<open>n > 0\<close>: at most
  \<open>n\<close> pieces, the last one the unsplit rest. \<open>cur\<close> holds the bytes of the current
  piece, newest first.
\<close>

fun SplitN_from :: "string \<Rightarrow> char \<Rightarrow> nat \<Rightarrow> string \<Rightarrow> string list" where
  "SplitN_from cur sep n [] = [rev cur]"
| "SplitN_from cur sep n (c # cs) =
     (if n \<le> 1 then [rev cur @ c # cs]
      else if c = sep then rev cur # SplitN_from [] sep (n - 1) cs
      else SplitN_from (c # cur) sep n cs)"

definition SplitN :: "string \<Rightarrow> char \<Rightarrow> nat \<Rightarrow> string list" where
  "SplitN s sep n = (if n = 0 then [] else SplitN_from [] sep n s)"

definition getQueueName :: "string \<Rightarrow> string \<times> bool" where
  "getQueueName path =
     (let p = SplitN path (CHR ''/'') 3
      in if length p \<noteq> 2 then ('''', False) else (p ! 1, True))"

definition getQueueMessage :: "url \<Rightarrow> string \<times> bool" where
  "getQueueMessage u = (let msg = Get (Query u) ''v'' in (msg, msg \<noteq> ''''))"

text \<open>
  Go's \<^verbatim>\<open>strconv.ParseInt(s, 10, 64)\<close>: an optional sign, then one or more decimal
  digits, with a value in the range of \<^verbatim>\<open>int64\<close>; anything else is an error (\<open>None\<close>).
  The digits are summed without a bound and the range is checked at the end, which
  accepts the same strings as the library's check at each digit.
\<close>

definition digitVal :: "char \<Rightarrow> nat option" where
  "digitVal c =
     (let d = (of_char c :: nat) in if 48 \<le> d \<and> d \<le> 57 then Some (d - 48) else None)"

fun parseDigits :: "nat \<Rightarrow> string \<Rightarrow> nat option" where
  "parseDigits n [] = Some n"
| "parseDigits n (c # cs) =
     (case digitVal c of None \<Rightarrow> None | Some d \<Rightarrow> parseDigits (n * 10 + d) cs)"

definition ParseUint :: "string \<Rightarrow> nat option" where
  "ParseUint s = (if s = [] then None else parseDigits 0 s)"

definition ParseInt :: "string \<Rightarrow> int option" where
  "ParseInt s =
     (if s = [] then None
      else
        let neg = (hd s = CHR ''-'');
            s' = (if hd s = CHR ''+'' \<or> hd s = CHR ''-'' then tl s else s)
        in case ParseUint s' of
             None \<Rightarrow> None
           | Some un \<Rightarrow>
               if \<not> neg \<and> un \<ge> 2 ^ 63 then None
               else if neg \<and> un > 2 ^ 63 then None
               else Some (if neg then - int un else int un))"

text \<open>\<^verbatim>\<open>time.Duration\<close> is an \<^verbatim>\<open>int64\<close> count of nanoseconds; its product wraps.\<close>

type_synonym Duration = "64 word"

definition Second :: Duration where
  "Second = 1000000000"

definition getRequestTimeout :: "url \<Rightarrow> Duration \<times> bool" where
  "getRequestTimeout u =
     (let timeout = Get (Query u) ''timeout''
      in if timeout = '''' then (0, False)
         else (case ParseInt timeout of
                 None \<Rightarrow> (0, False)
               | Some t \<Rightarrow> (word_of_int t * Second, True)))"

section \<open>The request handlers\<close>

text \<open>
  The state the handlers work on: the two structures of \<^verbatim>\<open>queueHandlerConfig\<close>, the
  channels made so far and the next channel \<^verbatim>\<open>make\<close> will return.
\<close>

record server =
  store :: store
  pool :: channelPool
  chans :: heap
  nextChan :: chan

definition newServer :: server where
  "newServer = \<lparr>store = newStore, pool = NewHandlerPool, chans = emptyHeap, nextChan = 0\<rparr>"

datatype response = BadRequest | NotFound | Ok string

text \<open>
  Lines 93 to 98 of \<^verbatim>\<open>putQueueHandler\<close>: try the waiters, push when nobody took the
  message.
\<close>

definition produce :: "server \<Rightarrow> string \<Rightarrow> string \<Rightarrow> server outcome" where
  "produce s name msg =
     (case sendMessage (pool s) (chans s) name msg of
        Panic e \<Rightarrow> Panic e
      | Blocked \<Rightarrow> Blocked
      | Returns (isSended, h) \<Rightarrow>
          if \<not> isSended
          then Returns (s\<lparr>store := push (store s) name msg, chans := h\<rparr>)
          else Returns (s\<lparr>chans := h\<rparr>))"

text \<open>A successful PUT writes nothing: the reply is 200 with an empty body.\<close>

definition putQueueHandler :: "server \<Rightarrow> url \<Rightarrow> (server \<times> response) outcome" where
  "putQueueHandler s u =
     (case getQueueName (Path u) of
        (name, ok) \<Rightarrow>
          if \<not> ok then Returns (s, BadRequest)
          else (case getQueueMessage u of
                  (msg, ok') \<Rightarrow>
                    if \<not> ok' then Returns (s, BadRequest)
                    else (case produce s name msg of
                            Panic e \<Rightarrow> Panic e
                          | Blocked \<Rightarrow> Blocked
                          | Returns s' \<Rightarrow> Returns (s', Ok ''''))))"

text \<open>
  A GET either answers at once or reaches the \<^verbatim>\<open>select\<close> with its channel registered
  and a timer of the given duration running.
\<close>

datatype getResult = Respond response | Wait chan Duration

text \<open>
  Lines 111 to 135 of \<^verbatim>\<open>getQueueHandler\<close>, up to the \<^verbatim>\<open>select\<close>. The last branch
  is the end of the function reached with nothing written (a reply of 200 with an empty
  body); the two tests before it leave no way there.
\<close>

definition consume :: "server \<Rightarrow> string \<Rightarrow> Duration \<Rightarrow> bool \<Rightarrow> server \<times> getResult" where
  "consume s name timeout hasTimeout =
     (case pop (store s) name of
        ((msg, ok), st) \<Rightarrow>
          if \<not> ok \<and> \<not> hasTimeout then (s\<lparr>store := st\<rparr>, Respond NotFound)
          else if ok then (s\<lparr>store := st\<rparr>, Respond (Ok msg))
          else if hasTimeout then
            let ch = nextChan s
            in (s\<lparr>store := st,
                  pool := addToQueue (pool s) name ch,
                  chans := (chans s)(ch := newChan),
                  nextChan := Suc ch\<rparr>,
                Wait ch timeout)
          else (s\<lparr>store := st\<rparr>, Respond (Ok '''')))"

definition getQueueHandler :: "server \<Rightarrow> url \<Rightarrow> server \<times> getResult" where
  "getQueueHandler s u =
     (case getQueueName (Path u) of
        (name, ok) \<Rightarrow>
          if \<not> ok then (s, Respond BadRequest)
          else (case getRequestTimeout u of
                  (timeout, hasTimeout) \<Rightarrow> consume s name timeout hasTimeout))"

text \<open>
  The two branches of the \<^verbatim>\<open>select\<close>. Each ends with the deferred \<^verbatim>\<open>close(ch)\<close>.
  In the message branch the receive and the later \<^verbatim>\<open>removeFromQueue\<close> are separate
  steps: other requests can run between them.
\<close>

definition leaveQueue ::
  "server \<Rightarrow> string \<Rightarrow> chan \<Rightarrow> response \<Rightarrow> (server \<times> response) outcome" where
  "leaveQueue s name ch r =
     (case removeFromQueue (pool s) name ch of
        Panic e \<Rightarrow> Panic e
      | Blocked \<Rightarrow> Blocked
      | Returns p \<Rightarrow>
          (case chan_close (chans s) ch of
             Panic e \<Rightarrow> Panic e
           | Blocked \<Rightarrow> Blocked
           | Returns h \<Rightarrow> Returns (s\<lparr>pool := p, chans := h\<rparr>, r)))"

definition onTimeout :: "server \<Rightarrow> string \<Rightarrow> chan \<Rightarrow> (server \<times> response) outcome" where
  "onTimeout s name ch = leaveQueue s name ch NotFound"

definition receive :: "server \<Rightarrow> chan \<Rightarrow> (string \<times> server) outcome" where
  "receive s ch =
     (case chan_recv (chans s) ch of
        Panic e \<Rightarrow> Panic e
      | Blocked \<Rightarrow> Blocked
      | Returns (msg, h) \<Rightarrow> Returns (msg, s\<lparr>chans := h\<rparr>))"

definition onMessage ::
  "server \<Rightarrow> string \<Rightarrow> chan \<Rightarrow> string \<Rightarrow> (server \<times> response) outcome" where
  "onMessage s name ch msg = leaveQueue s name ch (Ok msg)"

section \<open>Runs and invariants\<close>

text \<open>A map from names to sequences in which no name is bound to the empty sequence.\<close>

definition no_empty_key :: "('k \<rightharpoonup> 'v list) \<Rightarrow> bool" where
  "no_empty_key m = (\<forall>k. m k \<noteq> Some [])"

text \<open>
  Every registered handle was made by \<^verbatim>\<open>make\<close> and is registered once under its name.
\<close>

definition handles_fresh :: "server \<Rightarrow> bool" where
  "handles_fresh s =
     (\<forall>k. distinct (index_or_nil (pool s k)) \<and>
          (\<forall>c \<in> set (index_or_nil (pool s k)). c < nextChan s))"

text \<open>
  The five operations of the two structures, and a run of them from a state. A call that
  panics or blocks has changed nothing: \<^verbatim>\<open>removeItem\<close> panics before the map is
  assigned, and \<^verbatim>\<open>sendMessage\<close> assigns nothing.
\<close>

datatype op =
    Push string string
  | Pop string
  | AddToQueue string chan
  | RemoveFromQueue string chan
  | SendMessage string string

fun step :: "server \<Rightarrow> op \<Rightarrow> server" where
  "step s (Push key msg) = s\<lparr>store := push (store s) key msg\<rparr>"
| "step s (Pop key) = s\<lparr>store := snd (pop (store s) key)\<rparr>"
| "step s (AddToQueue name ch) = s\<lparr>pool := addToQueue (pool s) name ch\<rparr>"
| "step s (RemoveFromQueue name ch) =
     (case removeFromQueue (pool s) name ch of Returns p \<Rightarrow> s\<lparr>pool := p\<rparr> | _ \<Rightarrow> s)"
| "step s (SendMessage key msg) =
     (case sendMessage (pool s) (chans s) key msg of
        Returns (d, h) \<Rightarrow> s\<lparr>chans := h\<rparr>
      | _ \<Rightarrow> s)"

text \<open>A sequence of produces into one name, and a sequence of consumes with no wait.\<close>

fun produceAll :: "server \<Rightarrow> string \<Rightarrow> string list \<Rightarrow> server outcome" where
  "produceAll s name [] = Returns s"
| "produceAll s name (msg # msgs) =
     (case produce s name msg of
        Panic e \<Rightarrow> Panic e
      | Blocked \<Rightarrow> Blocked
      | Returns s' \<Rightarrow> produceAll s' name msgs)"

fun consumeAll :: "server \<Rightarrow> string \<Rightarrow> nat \<Rightarrow> server \<times> getResult list" where
  "consumeAll s name 0 = (s, [])"
| "consumeAll s name (Suc n) =
     (case consume s name 0 False of
        (s', r) \<Rightarrow> (case consumeAll s' name n of (s'', rs) \<Rightarrow> (s'', r # rs)))"

section \<open>The message store: pop\<close>

lemma pop_absent: "s key = None \<Longrightarrow> pop s key = (('''', False), s)"
  by (simp add: pop_def)

lemma pop_empty: "s key = Some [] \<Longrightarrow> pop s key = (('''', False), s)"
  by (simp add: pop_def)

lemma pop_cons:
  "s key = Some (v # rest) \<Longrightarrow>
   pop s key = ((v, True), if rest = [] then s(key := None) else s(key \<mapsto> rest))"
  by (simp add: pop_def)

text \<open>
  Claim C4. \<^verbatim>\<open>pop\<close> on a name with a non-empty sequence returns the head with
  \<open>found = True\<close> and stores the tail, deleting the key when the tail is empty; on an
  absent name or an empty sequence it returns \<open>found = False\<close> and the store is the
  one it was given. Other names are never touched.
\<close>

theorem pop_contract:
  "(s key = None \<or> s key = Some [] \<longrightarrow> pop s key = (('''', False), s)) \<and>
   (\<forall>v rest. s key = Some (v # rest) \<longrightarrow>
      fst (pop s key) = (v, True) \<and>
      snd (pop s key) = (if rest = [] then s(key := None) else s(key \<mapsto> rest)) \<and>
      (rest = [] \<longrightarrow> key \<notin> dom (snd (pop s key))) \<and>
      (\<forall>k. k \<noteq> key \<longrightarrow> snd (pop s key) k = s k))"
proof (intro conjI allI impI)
  assume "s key = None \<or> s key = Some []"
  then show "pop s key = (('''', False), s)"
    using pop_absent pop_empty by blast
next
  fix v rest
  assume h: "s key = Some (v # rest)"
  show "fst (pop s key) = (v, True)"
    using h by (simp add: pop_cons)
  show "snd (pop s key) = (if rest = [] then s(key := None) else s(key \<mapsto> rest))"
    using h by (simp add: pop_cons)
  then show "key \<notin> dom (snd (pop s key))" if "rest = []"
    using that by simp
  show "snd (pop s key) k = s k" if "k \<noteq> key" for k
    using h that by (simp add: pop_cons)
qed

theorem pop_contract_witness:
  "pop [''jobs'' \<mapsto> [''task1'']] ''jobs'' = ((''task1'', True), Map.empty) \<and>
   pop [''jobs'' \<mapsto> [''task1'', ''task2'']] ''jobs''
     = ((''task1'', True), [''jobs'' \<mapsto> [''task2'']]) \<and>
   pop (Map.empty :: store) ''jobs'' = (('''', False), Map.empty)"
proof -
  let ?s1 = "[''jobs'' \<mapsto> [''task1'']] :: store"
  let ?s2 = "[''jobs'' \<mapsto> [''task1'', ''task2'']] :: store"
  have a: "fst (pop ?s1 ''jobs'') = (''task1'', True) \<and> snd (pop ?s1 ''jobs'') = Map.empty"
    using pop_contract [of ?s1 "''jobs''"] by simp
  have b: "fst (pop ?s2 ''jobs'') = (''task1'', True) \<and>
           snd (pop ?s2 ''jobs'') = [''jobs'' \<mapsto> [''task2'']]"
    using pop_contract [of ?s2 "''jobs''"] by simp
  have c: "pop (Map.empty :: store) ''jobs'' = (('''', False), Map.empty)"
    using pop_contract [of "Map.empty :: store" "''jobs''"] by simp
  from a b c show ?thesis
    by (metis prod.collapse)
qed

section \<open>The waiter registry: removal\<close>

text \<open>On a non-empty slice the loop of \<^verbatim>\<open>removeItem\<close> removes the first occurrence.\<close>

lemma removeItem_range_remove1:
  "item \<notin> set pre \<Longrightarrow>
   removeItem_range (pre @ xs) item (length pre) xs =
     (if item \<in> set xs \<and> length (pre @ xs) = 1 then [] else pre @ remove1 item xs)"
proof (induction xs arbitrary: pre)
  case Nil
  then show ?case by simp
next
  case (Cons v xs)
  show ?case
  proof (cases "v = item")
    case True
    then show ?thesis by simp
  next
    case False
    with Cons.prems have "item \<notin> set (pre @ [v])" by simp
    from Cons.IH [OF this] False show ?thesis by auto
  qed
qed

lemma removeItem_nonempty: "s \<noteq> [] \<Longrightarrow> removeItem s item = Returns (remove1 item s)"
  using removeItem_range_remove1 [of item "[]" s]
  by (cases s) (auto simp: removeItem_def length_Suc_conv)

lemma removeItem_empty: "removeItem [] item = Panic MakesliceLenOutOfRange"
  by (simp add: removeItem_def)

lemma removeFromQueue_absent:
  "p name = None \<Longrightarrow> removeFromQueue p name ch = Panic MakesliceLenOutOfRange"
  by (simp add: removeFromQueue_def removeItem_empty)

lemma removeFromQueue_present:
  "p name = Some (c # cs) \<Longrightarrow>
   removeFromQueue p name ch =
     Returns (if remove1 ch (c # cs) = [] then p(name := None)
              else p(name \<mapsto> remove1 ch (c # cs)))"
  by (simp add: removeFromQueue_def removeItem_nonempty del: remove1.simps)

text \<open>Where the name has waiters and the handle is not among them, nothing changes.\<close>

lemma removeFromQueue_not_registered:
  "p name = Some (c # cs) \<Longrightarrow> ch \<notin> set (c # cs) \<Longrightarrow> removeFromQueue p name ch = Returns p"
  by (simp add: removeFromQueue_present remove1_idem fun_upd_idem del: remove1.simps)

lemma removeFromQueue_lookup:
  "removeFromQueue p name ch = Returns p' \<Longrightarrow>
   index_or_nil (p' k) =
     (if k = name then remove1 ch (index_or_nil (p name)) else index_or_nil (p k))"
proof (cases "p name")
  case None
  assume "removeFromQueue p name ch = Returns p'"
  with None show ?thesis by (simp add: removeFromQueue_absent)
next
  case (Some xs)
  assume r: "removeFromQueue p name ch = Returns p'"
  show ?thesis
  proof (cases xs)
    case Nil
    with Some r show ?thesis by (simp add: removeFromQueue_def removeItem_empty)
  next
    case (Cons c cs)
    with Some have "p name = Some (c # cs)" by simp
    with removeFromQueue_present [of p name c cs ch] r show ?thesis
      by (auto simp del: remove1.simps split: if_splits)
  qed
qed

text \<open>
  Claim C3. The claim asks that removing a handle from a name with no entry be a no-op
  and that removal be idempotent. The code panics there: with no entry the slice read
  from the map has length 0 and \<^verbatim>\<open>make([]chan string, len(s)-1)\<close> is asked for length
  \<open>-1\<close>. So the second of two removals of the only handle of a name panics as well.
\<close>

theorem removeFromQueue_absent_panics:
  "removeFromQueue NewHandlerPool ''q'' 0 = Panic MakesliceLenOutOfRange \<and>
   removeFromQueue (addToQueue NewHandlerPool ''q'' 0) ''q'' 0 = Returns NewHandlerPool \<and>
   removeFromQueue [''r'' \<mapsto> [1]] ''q'' 0 = Panic MakesliceLenOutOfRange"
  by (simp add: removeFromQueue_def removeItem_def NewHandlerPool_def addToQueue_def)

section \<open>No name is bound to an empty sequence\<close>

lemma no_empty_key_push: "no_empty_key s \<Longrightarrow> no_empty_key (push s key msg)"
  by (simp add: no_empty_key_def push_def)

lemma no_empty_key_pop: "no_empty_key s \<Longrightarrow> no_empty_key (snd (pop s key))"
proof (cases "s key")
  case None
  assume "no_empty_key s"
  with None show ?thesis by (simp add: pop_absent)
next
  case (Some vals)
  assume ok: "no_empty_key s"
  show ?thesis
  proof (cases vals)
    case Nil
    with Some ok show ?thesis by (simp add: pop_empty)
  next
    case (Cons v rest)
    with Some ok show ?thesis by (simp add: pop_cons no_empty_key_def)
  qed
qed

lemma no_empty_key_addToQueue: "no_empty_key p \<Longrightarrow> no_empty_key (addToQueue p name ch)"
  by (simp add: no_empty_key_def addToQueue_def)

lemma no_empty_key_removeFromQueue:
  "no_empty_key p \<Longrightarrow> removeFromQueue p name ch = Returns p' \<Longrightarrow> no_empty_key p'"
  by (auto simp: no_empty_key_def removeFromQueue_def split: outcome.splits if_splits)

lemma no_empty_key_step:
  "no_empty_key (store s) \<Longrightarrow> no_empty_key (pool s) \<Longrightarrow>
   no_empty_key (store (step s x)) \<and> no_empty_key (pool (step s x))"
  by (cases x)
     (auto simp: no_empty_key_push no_empty_key_pop no_empty_key_addToQueue
           dest: no_empty_key_removeFromQueue split: outcome.splits)

lemma no_empty_key_run:
  "no_empty_key (store s) \<Longrightarrow> no_empty_key (pool s) \<Longrightarrow>
   no_empty_key (store (foldl step s xs)) \<and> no_empty_key (pool (foldl step s xs))"
  by (induction xs arbitrary: s) (simp_all add: no_empty_key_step)

lemma no_empty_key_newServer: "no_empty_key (store newServer) \<and> no_empty_key (pool newServer)"
  by (simp add: newServer_def newStore_def NewHandlerPool_def no_empty_key_def)

lemma produce_keeps_pool: "produce s name msg = Returns s' \<Longrightarrow> pool s' = pool s"
  by (auto simp: produce_def split: outcome.splits if_splits)

text \<open>
  Claim C7. From a state in which neither map binds a name to the empty sequence,
  \<^verbatim>\<open>push\<close>, \<^verbatim>\<open>pop\<close>, \<^verbatim>\<open>addToQueue\<close>, \<^verbatim>\<open>removeFromQueue\<close> and a produce
  (\<^verbatim>\<open>sendMessage\<close>, then \<^verbatim>\<open>push\<close> when nobody was waiting) lead to such a state again;
  and every state reached from the new server by any run of the five operations is such
  a state.
\<close>

theorem no_empty_sequences:
  "(no_empty_key (store s) \<and> no_empty_key (pool s) \<longrightarrow>
      no_empty_key (push (store s) key msg) \<and>
      no_empty_key (snd (pop (store s) key)) \<and>
      no_empty_key (addToQueue (pool s) key ch) \<and>
      (\<forall>p'. removeFromQueue (pool s) key ch = Returns p' \<longrightarrow> no_empty_key p') \<and>
      (\<forall>s'. produce s key msg = Returns s' \<longrightarrow>
          no_empty_key (store s') \<and> no_empty_key (pool s'))) \<and>
   no_empty_key (store (foldl step newServer ops)) \<and>
   no_empty_key (pool (foldl step newServer ops))"
proof (intro conjI impI allI)
  assume a: "no_empty_key (store s) \<and> no_empty_key (pool s)"
  show "no_empty_key (push (store s) key msg)"
    using a by (simp add: no_empty_key_push)
  show "no_empty_key (snd (pop (store s) key))"
    using a by (simp add: no_empty_key_pop)
  show "no_empty_key (addToQueue (pool s) key ch)"
    using a by (simp add: no_empty_key_addToQueue)
  show "no_empty_key p'" if "removeFromQueue (pool s) key ch = Returns p'" for p'
    using a that no_empty_key_removeFromQueue by blast
  fix s'
  assume "produce s key msg = Returns s'"
  then have "pool s' = pool s" and "store s' = store s \<or> store s' = push (store s) key msg"
    by (auto simp: produce_def split: outcome.splits if_splits)
  then show "no_empty_key (store s')" and "no_empty_key (pool s')"
    using a by (auto simp: no_empty_key_push)
next
  show "no_empty_key (store (foldl step newServer ops))"
    using no_empty_key_run no_empty_key_newServer by blast
  show "no_empty_key (pool (foldl step newServer ops))"
    using no_empty_key_run no_empty_key_newServer by blast
qed

theorem no_empty_sequences_witness:
  "no_empty_key (push ([''q'' \<mapsto> [''a'']]) ''q'' ''b'') \<and>
   no_empty_key (snd (pop ([''q'' \<mapsto> [''a'']]) ''q'')) \<and>
   no_empty_key (addToQueue Map.empty ''q'' 0)"
proof -
  let ?s = "newServer\<lparr>store := [''q'' \<mapsto> [''a'']]\<rparr>"
  have "no_empty_key (store ?s) \<and> no_empty_key (pool ?s)"
    by (simp add: no_empty_key_def newServer_def NewHandlerPool_def)
  with no_empty_sequences [of ?s "''q''" "''b''" 0 "[]"] show ?thesis
    by (simp add: newServer_def NewHandlerPool_def)
qed

section \<open>The waiter registry: delivery\<close>

lemma chan_send_free:
  "\<not> isClosed (h c) \<Longrightarrow> buf (h c) = [] \<Longrightarrow>
   chan_send h c msg = Returns (h(c := (h c)\<lparr>buf := [msg]\<rparr>))"
  by (simp add: chan_send_def chanCap_def)

lemma chan_send_full:
  "\<not> isClosed (h c) \<Longrightarrow> buf (h c) \<noteq> [] \<Longrightarrow> chan_send h c msg = Blocked"
  by (cases "buf (h c)") (simp_all add: chan_send_def chanCap_def)

lemma chan_send_Returns:
  "chan_send h c msg = Returns h' \<Longrightarrow>
   \<not> isClosed (h c) \<and> buf (h c) = [] \<and> h' = h(c := (h c)\<lparr>buf := [msg]\<rparr>)"
  by (cases "buf (h c)") (auto simp: chan_send_def chanCap_def split: if_splits)

lemma sendMessage_no_waiter: "p key = None \<Longrightarrow> sendMessage p h key msg = Returns (False, h)"
  by (simp add: sendMessage_def)

lemma sendMessage_head:
  "p key = Some (c # cs) \<Longrightarrow>
   sendMessage p h key msg =
     (case chan_send h c msg of
        Panic e \<Rightarrow> Panic e
      | Blocked \<Rightarrow> Blocked
      | Returns h' \<Rightarrow> Returns (True, h'))"
  by (simp add: sendMessage_def)

text \<open>What a call of \<^verbatim>\<open>sendMessage\<close> that returns has found and done.\<close>

lemma sendMessage_Returns:
  assumes "sendMessage p h key msg = Returns (d, h')"
  shows "(d = False \<and> p key = None \<and> h' = h) \<or>
         (d = True \<and>
          (\<exists>c cs. p key = Some (c # cs) \<and> \<not> isClosed (h c) \<and> buf (h c) = [] \<and>
                  h' = h(c := (h c)\<lparr>buf := [msg]\<rparr>)))"
proof (cases "p key")
  case None
  with assms show ?thesis by (simp add: sendMessage_def)
next
  case (Some handlers)
  show ?thesis
  proof (cases handlers)
    case Nil
    with Some assms show ?thesis by (simp add: sendMessage_def)
  next
    case (Cons c cs)
    with Some have pk: "p key = Some (c # cs)" by simp
    from assms pk obtain h1 where s: "chan_send h c msg = Returns h1"
      and d: "d = True" "h' = h1"
      by (auto simp: sendMessage_head split: outcome.splits)
    from chan_send_Returns [OF s] pk d show ?thesis by auto
  qed
qed

text \<open>
  Claim C6, amended. With no waiter for the name \<^verbatim>\<open>sendMessage\<close> returns false and
  changes nothing. With waiters, and the channel of the head handle open with its slot
  free, it returns true and the message is in the head handle's channel, nothing else
  changed; a handle registered later goes behind the head. Whenever the call returns,
  the flag is true exactly when the name has a waiter. (When the head handle's slot is
  still full the call does not return: see the counterexample.)
\<close>

theorem sendMessage_contract:
  "(p key = None \<longrightarrow> sendMessage p h key msg = Returns (False, h)) \<and>
   (\<forall>c cs. p key = Some (c # cs) \<and> \<not> isClosed (h c) \<and> buf (h c) = [] \<longrightarrow>
      sendMessage p h key msg = Returns (True, h(c := (h c)\<lparr>buf := [msg]\<rparr>)) \<and>
      (\<forall>ch. addToQueue p key ch key = Some (c # cs @ [ch]))) \<and>
   (\<forall>d h'. sendMessage p h key msg = Returns (d, h') \<longrightarrow>
      (d \<longleftrightarrow> index_or_nil (p key) \<noteq> []))"
proof (intro conjI allI impI)
  assume "p key = None"
  then show "sendMessage p h key msg = Returns (False, h)"
    by (rule sendMessage_no_waiter)
next
  fix c cs
  assume a: "p key = Some (c # cs) \<and> \<not> isClosed (h c) \<and> buf (h c) = []"
  then show "sendMessage p h key msg = Returns (True, h(c := (h c)\<lparr>buf := [msg]\<rparr>))"
    by (simp add: sendMessage_head chan_send_free)
  show "addToQueue p key ch key = Some (c # cs @ [ch])" for ch
    using a by (simp add: addToQueue_def)
next
  fix d h'
  assume "sendMessage p h key msg = Returns (d, h')"
  from sendMessage_Returns [OF this]
  show "d \<longleftrightarrow> index_or_nil (p key) \<noteq> []"
    by auto
qed

theorem sendMessage_contract_witness:
  "sendMessage [''q'' \<mapsto> [0, 1]] emptyHeap ''q'' ''a''
     = Returns (True, emptyHeap(0 := \<lparr>buf = [''a''], isClosed = False\<rparr>)) \<and>
   addToQueue [''q'' \<mapsto> [0, 1]] ''q'' 2 ''q'' = Some [0, 1, 2] \<and>
   sendMessage [''q'' \<mapsto> [0, 1]] emptyHeap ''r'' ''a'' = Returns (False, emptyHeap)"
  using sendMessage_contract [of "[''q'' \<mapsto> [0, 1]]" "''q''" emptyHeap "''a''"]
        sendMessage_contract [of "[''q'' \<mapsto> [0, 1]]" "''r''" emptyHeap "''a''"]
  by (simp add: emptyHeap_def newChan_def)

text \<open>
  A waiter is registered under \<open>q\<close> and a first message is delivered to it. Before the
  waiter has taken the message out of its channel, a second \<^verbatim>\<open>sendMessage\<close> for \<open>q\<close>
  finds the same head handle with its slot full and blocks: it reports nothing.
\<close>

theorem sendMessage_blocks_counterexample:
  "sendMessage (addToQueue NewHandlerPool ''q'' 0) emptyHeap ''q'' ''a''
     = Returns (True, emptyHeap(0 := \<lparr>buf = [''a''], isClosed = False\<rparr>)) \<and>
   sendMessage (addToQueue NewHandlerPool ''q'' 0)
       (emptyHeap(0 := \<lparr>buf = [''a''], isClosed = False\<rparr>)) ''q'' ''b''
     = Blocked"
  by (simp add: sendMessage_def addToQueue_def NewHandlerPool_def chan_send_def chanCap_def
        emptyHeap_def newChan_def)

section \<open>Deliveries to one handle\<close>

lemma step_RemoveFromQueue_lookup:
  "distinct (index_or_nil (pool s name)) \<Longrightarrow>
   ch \<notin> set (index_or_nil (pool (step s (RemoveFromQueue name ch)) name))"
proof (cases "removeFromQueue (pool s) name ch")
  case (Returns p')
  assume "distinct (index_or_nil (pool s name))"
  with removeFromQueue_lookup [OF Returns, of name] Returns show ?thesis
    by simp
next
  case (Panic e)
  have "pool s name = None \<or> pool s name = Some []"
  proof (cases "pool s name")
    case None
    then show ?thesis by simp
  next
    case (Some xs)
    with Panic show ?thesis
      by (cases xs) (simp_all add: removeFromQueue_present del: remove1.simps)
  qed
  with Panic show ?thesis by auto
next
  case Blocked
  then show ?thesis
    by (auto simp: removeFromQueue_def removeItem_def split: if_splits)
qed

lemma not_registered_step:
  "ch \<notin> set (index_or_nil (pool s name)) \<Longrightarrow> x \<noteq> AddToQueue name ch \<Longrightarrow>
   ch \<notin> set (index_or_nil (pool (step s x) name))"
proof (cases x)
  case (AddToQueue k c)
  assume "ch \<notin> set (index_or_nil (pool s name))" "x \<noteq> AddToQueue name ch"
  with AddToQueue show ?thesis by (auto simp: addToQueue_def)
next
  case (RemoveFromQueue k c)
  assume a: "ch \<notin> set (index_or_nil (pool s name))"
  show ?thesis
  proof (cases "removeFromQueue (pool s) k c")
    case (Returns p')
    from removeFromQueue_lookup [OF Returns, of name] a RemoveFromQueue Returns show ?thesis
      by (auto dest: notin_set_remove1)
  qed (use a RemoveFromQueue in simp_all)
next
  case (SendMessage k m)
  assume "ch \<notin> set (index_or_nil (pool s name))"
  with SendMessage show ?thesis by (simp split: outcome.splits)
qed simp_all

lemma not_registered_run:
  "ch \<notin> set (index_or_nil (pool s name)) \<Longrightarrow> AddToQueue name ch \<notin> set xs \<Longrightarrow>
   ch \<notin> set (index_or_nil (pool (foldl step s xs) name))"
proof (induction xs arbitrary: s)
  case Nil
  then show ?case by simp
next
  case (Cons x xs)
  from Cons.prems have "x \<noteq> AddToQueue name ch" and r: "AddToQueue name ch \<notin> set xs"
    by auto
  from not_registered_step [OF Cons.prems(1) this(1)] Cons.IH r show ?case by simp
qed

lemma send_elsewhere:
  "ch \<notin> set (index_or_nil (pool s name)) \<Longrightarrow>
   chans (step s (SendMessage name msg)) ch = chans s ch"
proof (cases "sendMessage (pool s) (chans s) name msg")
  case (Returns r)
  assume a: "ch \<notin> set (index_or_nil (pool s name))"
  obtain d h where r: "r = (d, h)" by (cases r)
  from sendMessage_Returns [of "pool s" "chans s" name msg d h] Returns r a
  show ?thesis by auto
qed simp_all

text \<open>
  Claim C2, amended. A produce leaves the registry as it was: the handle it delivered to
  stays registered, at the head, until its owner removes it. From the moment the owner
  has removed it (the handle having been registered once, as every handle the GET
  handler makes is), no \<^verbatim>\<open>sendMessage\<close> for that name writes to it again, whatever
  operations run in between, as long as the handle is not registered anew.
\<close>

theorem delivery_stops_at_deregistration:
  "(\<forall>s'. produce s name msg = Returns s' \<longrightarrow> pool s' = pool s) \<and>
   (distinct (index_or_nil (pool s name)) \<and> AddToQueue name ch \<notin> set ops \<longrightarrow>
      ch \<notin> set (index_or_nil (pool (foldl step (step s (RemoveFromQueue name ch)) ops) name)) \<and>
      chans (step (foldl step (step s (RemoveFromQueue name ch)) ops) (SendMessage name msg)) ch
        = chans (foldl step (step s (RemoveFromQueue name ch)) ops) ch)"
proof (intro conjI allI impI)
  show "pool s' = pool s" if "produce s name msg = Returns s'" for s'
    using that by (rule produce_keeps_pool)
next
  assume a: "distinct (index_or_nil (pool s name)) \<and> AddToQueue name ch \<notin> set ops"
  then have "ch \<notin> set (index_or_nil (pool (step s (RemoveFromQueue name ch)) name))"
    using step_RemoveFromQueue_lookup by blast
  with a show n: "ch \<notin> set (index_or_nil
      (pool (foldl step (step s (RemoveFromQueue name ch)) ops) name))"
    by (simp add: not_registered_run)
  then show "chans (step (foldl step (step s (RemoveFromQueue name ch)) ops)
        (SendMessage name msg)) ch
      = chans (foldl step (step s (RemoveFromQueue name ch)) ops) ch"
    by (rule send_elsewhere)
qed

theorem delivery_stops_at_deregistration_witness:
  "0 \<notin> set (index_or_nil (pool (foldl step
      (step (newServer\<lparr>pool := [''q'' \<mapsto> [0, 1]]\<rparr>) (RemoveFromQueue ''q'' 0))
      [AddToQueue ''q'' 2, SendMessage ''q'' ''a'']) ''q'')) \<and>
   chans (step (foldl step
      (step (newServer\<lparr>pool := [''q'' \<mapsto> [0, 1]]\<rparr>) (RemoveFromQueue ''q'' 0))
      [AddToQueue ''q'' 2, SendMessage ''q'' ''a'']) (SendMessage ''q'' ''b'')) 0
   = chans (foldl step
      (step (newServer\<lparr>pool := [''q'' \<mapsto> [0, 1]]\<rparr>) (RemoveFromQueue ''q'' 0))
      [AddToQueue ''q'' 2, SendMessage ''q'' ''a'']) 0"
proof -
  let ?s = "newServer\<lparr>pool := [''q'' \<mapsto> [0, 1]]\<rparr>"
  have "distinct (index_or_nil (pool ?s ''q'')) \<and>
        AddToQueue ''q'' 0 \<notin> set [AddToQueue ''q'' 2, SendMessage ''q'' ''a'']"
    by simp
  with delivery_stops_at_deregistration
         [of ?s "''q''" "''b''" 0 "[AddToQueue ''q'' 2, SendMessage ''q'' ''a'']"]
  show ?thesis by blast
qed

text \<open>
  A GET with a timeout registers handle \<open>0\<close> under \<open>q\<close> and waits. A PUT delivers
  \<open>a\<close> to handle \<open>0\<close>. The waiter receives \<open>a\<close>; it has not yet called
  \<^verbatim>\<open>removeFromQueue\<close>. A second PUT finds handle \<open>0\<close> still at the head and delivers
  \<open>b\<close> to it as well: \<open>b\<close> is in the channel of handle \<open>0\<close> and not in the store.
\<close>

theorem double_delivery_counterexample:
  "getQueueHandler newServer \<lparr>Path = ''/q'', Query = [(''timeout'', ''5'')]\<rparr>
     = (\<lparr>store = Map.empty, pool = [''q'' \<mapsto> [0]], chans = emptyHeap(0 := newChan),
         nextChan = 1\<rparr>, Wait 0 (5 * Second)) \<and>
   putQueueHandler
       \<lparr>store = Map.empty, pool = [''q'' \<mapsto> [0]], chans = emptyHeap(0 := newChan), nextChan = 1\<rparr>
       \<lparr>Path = ''/q'', Query = [(''v'', ''a'')]\<rparr>
     = Returns (\<lparr>store = Map.empty, pool = [''q'' \<mapsto> [0]],
                 chans = emptyHeap(0 := \<lparr>buf = [''a''], isClosed = False\<rparr>), nextChan = 1\<rparr>,
                Ok '''') \<and>
   receive
       \<lparr>store = Map.empty, pool = [''q'' \<mapsto> [0]],
         chans = emptyHeap(0 := \<lparr>buf = [''a''], isClosed = False\<rparr>), nextChan = 1\<rparr> 0
     = Returns (''a'', \<lparr>store = Map.empty, pool = [''q'' \<mapsto> [0]],
                 chans = emptyHeap(0 := \<lparr>buf = [], isClosed = False\<rparr>), nextChan = 1\<rparr>) \<and>
   putQueueHandler
       \<lparr>store = Map.empty, pool = [''q'' \<mapsto> [0]],
         chans = emptyHeap(0 := \<lparr>buf = [], isClosed = False\<rparr>), nextChan = 1\<rparr>
       \<lparr>Path = ''/q'', Query = [(''v'', ''b'')]\<rparr>
     = Returns (\<lparr>store = Map.empty, pool = [''q'' \<mapsto> [0]],
                 chans = emptyHeap(0 := \<lparr>buf = [''b''], isClosed = False\<rparr>), nextChan = 1\<rparr>,
                Ok '''')"
proof (intro conjI)
  show "getQueueHandler newServer \<lparr>Path = ''/q'', Query = [(''timeout'', ''5'')]\<rparr>
     = (\<lparr>store = Map.empty, pool = [''q'' \<mapsto> [0]], chans = emptyHeap(0 := newChan),
         nextChan = 1\<rparr>, Wait 0 (5 * Second))"
    by (simp add: getQueueHandler_def getQueueName_def SplitN_def getRequestTimeout_def Get_def
          ParseInt_def ParseUint_def digitVal_def consume_def pop_def newServer_def newStore_def
          NewHandlerPool_def addToQueue_def)
  show "putQueueHandler
       \<lparr>store = Map.empty, pool = [''q'' \<mapsto> [0]], chans = emptyHeap(0 := newChan), nextChan = 1\<rparr>
       \<lparr>Path = ''/q'', Query = [(''v'', ''a'')]\<rparr>
     = Returns (\<lparr>store = Map.empty, pool = [''q'' \<mapsto> [0]],
                 chans = emptyHeap(0 := \<lparr>buf = [''a''], isClosed = False\<rparr>), nextChan = 1\<rparr>,
                Ok '''')"
    by (simp add: putQueueHandler_def getQueueName_def SplitN_def getQueueMessage_def Get_def
          produce_def sendMessage_def chan_send_def chanCap_def newChan_def)
  show "receive
       \<lparr>store = Map.empty, pool = [''q'' \<mapsto> [0]],
         chans = emptyHeap(0 := \<lparr>buf = [''a''], isClosed = False\<rparr>), nextChan = 1\<rparr> 0
     = Returns (''a'', \<lparr>store = Map.empty, pool = [''q'' \<mapsto> [0]],
                 chans = emptyHeap(0 := \<lparr>buf = [], isClosed = False\<rparr>), nextChan = 1\<rparr>)"
    by (simp add: receive_def chan_recv_def)
  show "putQueueHandler
       \<lparr>store = Map.empty, pool = [''q'' \<mapsto> [0]],
         chans = emptyHeap(0 := \<lparr>buf = [], isClosed = False\<rparr>), nextChan = 1\<rparr>
       \<lparr>Path = ''/q'', Query = [(''v'', ''b'')]\<rparr>
     = Returns (\<lparr>store = Map.empty, pool = [''q'' \<mapsto> [0]],
                 chans = emptyHeap(0 := \<lparr>buf = [''b''], isClosed = False\<rparr>), nextChan = 1\<rparr>,
                Ok '''')"
    by (simp add: putQueueHandler_def getQueueName_def SplitN_def getQueueMessage_def Get_def
          produce_def sendMessage_def chan_send_def chanCap_def)
qed

section \<open>Produce: hand-off or buffer\<close>

lemma produce_no_waiter:
  "pool s name = None \<Longrightarrow> produce s name msg = Returns (s\<lparr>store := push (store s) name msg\<rparr>)"
  by (simp add: produce_def sendMessage_no_waiter)

text \<open>
  Claim C5. A produce for a name with no waiter returns with the message pushed into the
  store and every channel as it was. A produce that returns has either done exactly
  that, or found a waiter, put the message into the channel of the head handle and left
  the store as it was: never both. The registry is the same afterwards.
\<close>

theorem produce_delivers_or_buffers:
  "(pool s name = None \<longrightarrow>
      produce s name msg = Returns (s\<lparr>store := push (store s) name msg\<rparr>)) \<and>
   (\<forall>s'. produce s name msg = Returns s' \<longrightarrow>
      pool s' = pool s \<and> nextChan s' = nextChan s \<and>
      ((pool s name = None \<and> store s' = push (store s) name msg \<and> chans s' = chans s) \<or>
       (\<exists>c cs. pool s name = Some (c # cs) \<and> store s' = store s \<and>
               chans s' = (chans s)(c := (chans s c)\<lparr>buf := [msg]\<rparr>))))"
proof (intro conjI allI impI)
  assume "pool s name = None"
  then show "produce s name msg = Returns (s\<lparr>store := push (store s) name msg\<rparr>)"
    by (rule produce_no_waiter)
next
  fix s'
  assume r: "produce s name msg = Returns s'"
  then obtain d h where sm: "sendMessage (pool s) (chans s) name msg = Returns (d, h)"
    and s': "s' = (if \<not> d then s\<lparr>store := push (store s) name msg, chans := h\<rparr>
                   else s\<lparr>chans := h\<rparr>)"
    by (auto simp: produce_def split: outcome.splits if_splits)
  show "pool s' = pool s" by (simp add: s')
  show "nextChan s' = nextChan s" by (simp add: s')
  from sendMessage_Returns [OF sm]
  show "(pool s name = None \<and> store s' = push (store s) name msg \<and> chans s' = chans s) \<or>
       (\<exists>c cs. pool s name = Some (c # cs) \<and> store s' = store s \<and>
               chans s' = (chans s)(c := (chans s c)\<lparr>buf := [msg]\<rparr>))"
    by (auto simp: s')
qed

theorem produce_delivers_or_buffers_witness:
  "produce newServer ''q'' ''a'' = Returns (newServer\<lparr>store := [''q'' \<mapsto> [''a'']]\<rparr>) \<and>
   produce (newServer\<lparr>pool := [''q'' \<mapsto> [0]]\<rparr>) ''q'' ''a''
     = Returns (newServer\<lparr>pool := [''q'' \<mapsto> [0]],
                  chans := emptyHeap(0 := \<lparr>buf = [''a''], isClosed = False\<rparr>)\<rparr>) \<and>
   store (newServer\<lparr>pool := [''q'' \<mapsto> [0]],
            chans := emptyHeap(0 := \<lparr>buf = [''a''], isClosed = False\<rparr>)\<rparr>) = Map.empty"
proof -
  let ?w = "newServer\<lparr>pool := [''q'' \<mapsto> [0]]\<rparr>"
  let ?w' = "newServer\<lparr>pool := [''q'' \<mapsto> [0]],
               chans := emptyHeap(0 := \<lparr>buf = [''a''], isClosed = False\<rparr>)\<rparr>"
  have n: "pool newServer ''q'' = None"
    by (simp add: newServer_def NewHandlerPool_def)
  have 1: "produce newServer ''q'' ''a'' = Returns (newServer\<lparr>store := [''q'' \<mapsto> [''a'']]\<rparr>)"
    using produce_delivers_or_buffers [of newServer "''q''" "''a''"] n
    by (simp add: push_def newServer_def newStore_def)
  have 2: "produce ?w ''q'' ''a'' = Returns ?w'"
    by (simp add: produce_def sendMessage_def chan_send_def chanCap_def newServer_def
          emptyHeap_def newChan_def)
  have "store ?w' = store ?w"
    using produce_delivers_or_buffers [of ?w "''q''" "''a''"] 2 by simp
  then have 3: "store ?w' = Map.empty"
    by (simp add: newServer_def newStore_def)
  from 1 2 3 show ?thesis
    by (intro conjI)
qed

section \<open>First in, first out\<close>

lemma push_lookup: "index_or_nil (push st name msg name) = index_or_nil (st name) @ [msg]"
  by (simp add: push_def)

lemma produceAll_no_waiter:
  "pool s name = None \<Longrightarrow>
   \<exists>s1. produceAll s name msgs = Returns s1 \<and> pool s1 = pool s \<and> chans s1 = chans s \<and>
        nextChan s1 = nextChan s \<and>
        index_or_nil (store s1 name) = index_or_nil (store s name) @ msgs"
proof (induction msgs arbitrary: s)
  case Nil
  then show ?case by simp
next
  case (Cons msg msgs)
  let ?s' = "s\<lparr>store := push (store s) name msg\<rparr>"
  have "pool ?s' name = None" using Cons.prems by simp
  from Cons.IH [OF this] obtain s1 where
    "produceAll ?s' name msgs = Returns s1" "pool s1 = pool s" "chans s1 = chans s"
    "nextChan s1 = nextChan s"
    "index_or_nil (store s1 name) = index_or_nil (store ?s' name) @ msgs"
    by auto
  then show ?case
    using Cons.prems by (simp add: produce_no_waiter push_lookup)
qed

lemma consume_nowait_empty:
  "index_or_nil (store s name) = [] \<Longrightarrow> consume s name t False = (s, Respond NotFound)"
  by (cases "store s name") (simp_all add: consume_def pop_absent pop_empty)

lemma consume_buffered:
  "store s name = Some (msg # rest) \<Longrightarrow>
   consume s name t hasTimeout =
     (s\<lparr>store := (if rest = [] then (store s)(name := None) else (store s)(name \<mapsto> rest))\<rparr>,
      Respond (Ok msg))"
  by (simp add: consume_def pop_cons)

lemma consume_wait:
  "index_or_nil (store s name) = [] \<Longrightarrow>
   consume s name t True =
     (s\<lparr>pool := addToQueue (pool s) name (nextChan s),
        chans := (chans s)(nextChan s := newChan),
        nextChan := Suc (nextChan s)\<rparr>, Wait (nextChan s) t)"
  by (cases "store s name") (simp_all add: consume_def pop_absent pop_empty Let_def)

lemma consume_nowait_head:
  assumes "index_or_nil (store s name) = msg # rest"
  shows "snd (consume s name t False) = Respond (Ok msg)"
    and "index_or_nil (store (fst (consume s name t False)) name) = rest"
proof -
  from assms have "store s name = Some (msg # rest)"
    by (cases "store s name") simp_all
  then have c: "consume s name t False =
      (s\<lparr>store := (if rest = [] then (store s)(name := None) else (store s)(name \<mapsto> rest))\<rparr>,
       Respond (Ok msg))"
    by (rule consume_buffered)
  show "snd (consume s name t False) = Respond (Ok msg)" by (simp add: c)
  show "index_or_nil (store (fst (consume s name t False)) name) = rest" by (simp add: c)
qed

lemma consumeAll_fifo:
  "index_or_nil (store s name) = msgs @ rest \<Longrightarrow>
   snd (consumeAll s name (length msgs)) = map (\<lambda>m. Respond (Ok m)) msgs \<and>
   index_or_nil (store (fst (consumeAll s name (length msgs))) name) = rest"
proof (induction msgs arbitrary: s)
  case Nil
  then show ?case by simp
next
  case (Cons msg msgs)
  then have h: "index_or_nil (store s name) = msg # (msgs @ rest)" by simp
  obtain s' r where c: "consume s name 0 False = (s', r)" by (cases "consume s name 0 False")
  from consume_nowait_head [OF h, of 0] c
  have r: "r = Respond (Ok msg)" and s': "index_or_nil (store s' name) = msgs @ rest"
    by simp_all
  from Cons.IH [OF s'] show ?case
    by (auto simp: c r split: prod.splits)
qed

text \<open>
  Claim C1. Take any name with nothing buffered and no waiter registered, and any
  messages \<open>P1 .. Pn\<close>. The \<open>n\<close> produces all return; after them \<open>n\<close> consumes
  with no wait answer \<open>P1 .. Pn\<close> in that order, each as found, and one more consume
  answers not found.
\<close>

theorem fifo_per_name:
  assumes "store s name = None" and "pool s name = None"
  shows "\<exists>s1. produceAll s name msgs = Returns s1 \<and>
           snd (consumeAll s1 name (length msgs)) = map (\<lambda>m. Respond (Ok m)) msgs \<and>
           snd (consume (fst (consumeAll s1 name (length msgs))) name 0 False)
             = Respond NotFound"
proof -
  from produceAll_no_waiter [OF assms(2), of msgs] assms(1) obtain s1 where
    p: "produceAll s name msgs = Returns s1" and
    st: "index_or_nil (store s1 name) = msgs @ []"
    by auto
  from consumeAll_fifo [OF st]
  have "snd (consumeAll s1 name (length msgs)) = map (\<lambda>m. Respond (Ok m)) msgs"
    and "index_or_nil (store (fst (consumeAll s1 name (length msgs))) name) = []"
    by simp_all
  with p show ?thesis
    by (simp add: consume_nowait_empty)
qed

theorem fifo_per_name_witness:
  "\<exists>s1. produceAll newServer ''jobs'' [''task1'', ''task2''] = Returns s1 \<and>
     snd (consumeAll s1 ''jobs'' 2) = [Respond (Ok ''task1''), Respond (Ok ''task2'')] \<and>
     snd (consume (fst (consumeAll s1 ''jobs'' 2)) ''jobs'' 0 False) = Respond NotFound"
proof -
  have a: "store newServer ''jobs'' = None"
    by (simp add: newServer_def newStore_def)
  have b: "pool newServer ''jobs'' = None"
    by (simp add: newServer_def NewHandlerPool_def)
  have n: "length [''task1'', ''task2''] = 2"
    by simp
  show ?thesis
    using fifo_per_name [OF a b, of "[''task1'', ''task2'']"]
    unfolding n by (simp only: list.map)
qed

text \<open>
  The same through the handlers: two PUTs to \<open>/jobs\<close>, then three GETs with no
  \<open>timeout\<close> parameter.
\<close>

lemma jobs_scenario:
  "putQueueHandler newServer \<lparr>Path = ''/jobs'', Query = [(''v'', ''task1'')]\<rparr>
     = Returns (newServer\<lparr>store := [''jobs'' \<mapsto> [''task1'']]\<rparr>, Ok '''')"
  "putQueueHandler (newServer\<lparr>store := [''jobs'' \<mapsto> [''task1'']]\<rparr>)
       \<lparr>Path = ''/jobs'', Query = [(''v'', ''task2'')]\<rparr>
     = Returns (newServer\<lparr>store := [''jobs'' \<mapsto> [''task1'', ''task2'']]\<rparr>, Ok '''')"
  "getQueueHandler (newServer\<lparr>store := [''jobs'' \<mapsto> [''task1'', ''task2'']]\<rparr>)
       \<lparr>Path = ''/jobs'', Query = []\<rparr>
     = (newServer\<lparr>store := [''jobs'' \<mapsto> [''task2'']]\<rparr>, Respond (Ok ''task1''))"
  "getQueueHandler (newServer\<lparr>store := [''jobs'' \<mapsto> [''task2'']]\<rparr>)
       \<lparr>Path = ''/jobs'', Query = []\<rparr>
     = (newServer\<lparr>store := Map.empty\<rparr>, Respond (Ok ''task2''))"
  "getQueueHandler (newServer\<lparr>store := Map.empty\<rparr>) \<lparr>Path = ''/jobs'', Query = []\<rparr>
     = (newServer\<lparr>store := Map.empty\<rparr>, Respond NotFound)"
  by (simp_all add: putQueueHandler_def getQueueHandler_def getQueueName_def SplitN_def
        getQueueMessage_def getRequestTimeout_def Get_def produce_def sendMessage_def
        consume_def pop_def push_def newServer_def newStore_def NewHandlerPool_def)

section \<open>Consume: the store comes first\<close>

text \<open>
  Claim C8. A GET for a name that has a buffered message answers with the head of the
  sequence and removes it, whatever the \<open>timeout\<close> parameter says: the answer is the
  same for every wait duration and both values of the wait flag, no channel is made and
  the registry is as it was.
\<close>

theorem buffered_message_first:
  "getQueueName (Path u) = (name, True) \<and> store s name = Some (msg # rest) \<longrightarrow>
     getQueueHandler s u =
       (s\<lparr>store := (if rest = [] then (store s)(name := None) else (store s)(name \<mapsto> rest))\<rparr>,
        Respond (Ok msg)) \<and>
     (\<forall>t hasTimeout. consume s name t hasTimeout = getQueueHandler s u) \<and>
     pool (fst (getQueueHandler s u)) = pool s \<and>
     nextChan (fst (getQueueHandler s u)) = nextChan s"
proof
  assume a: "getQueueName (Path u) = (name, True) \<and> store s name = Some (msg # rest)"
  then have b: "store s name = Some (msg # rest)" by simp
  have g: "getQueueHandler s u =
       (s\<lparr>store := (if rest = [] then (store s)(name := None) else (store s)(name \<mapsto> rest))\<rparr>,
        Respond (Ok msg))"
    using a by (simp add: getQueueHandler_def consume_buffered [OF b] split: prod.splits)
  show "getQueueHandler s u =
       (s\<lparr>store := (if rest = [] then (store s)(name := None) else (store s)(name \<mapsto> rest))\<rparr>,
        Respond (Ok msg)) \<and>
     (\<forall>t hasTimeout. consume s name t hasTimeout = getQueueHandler s u) \<and>
     pool (fst (getQueueHandler s u)) = pool s \<and>
     nextChan (fst (getQueueHandler s u)) = nextChan s"
    by (simp add: g consume_buffered [OF b])
qed

theorem buffered_message_first_witness:
  "getQueueHandler (newServer\<lparr>store := [''jobs'' \<mapsto> [''task1'']]\<rparr>)
      \<lparr>Path = ''/jobs'', Query = [(''timeout'', ''30'')]\<rparr>
     = (newServer\<lparr>store := Map.empty\<rparr>, Respond (Ok ''task1'')) \<and>
   snd (getRequestTimeout \<lparr>Path = ''/jobs'', Query = [(''timeout'', ''30'')]\<rparr>) = True"
proof -
  let ?u = "\<lparr>Path = ''/jobs'', Query = [(''timeout'', ''30'')]\<rparr>"
  let ?s = "newServer\<lparr>store := [''jobs'' \<mapsto> [''task1'']]\<rparr>"
  have n: "getQueueName (Path ?u) = (''jobs'', True)"
    by (simp add: getQueueName_def SplitN_def)
  have st: "store ?s ''jobs'' = Some (''task1'' # [])"
    by simp
  have t: "snd (getRequestTimeout ?u) = True"
    by (simp add: getRequestTimeout_def Get_def ParseInt_def ParseUint_def digitVal_def)
  from buffered_message_first [of ?u "''jobs''" ?s "''task1''" "[]"] n st t
  show ?thesis by simp
qed

section \<open>The queue name\<close>

lemma length_SplitN_from:
  "0 < n \<Longrightarrow> length (SplitN_from cur sep n s) = min n (Suc (count_list s sep))"
  by (induction s arbitrary: cur n) auto

text \<open>A path is accepted exactly when it holds one slash.\<close>

lemma getQueueName_accepts_iff:
  "snd (getQueueName path) \<longleftrightarrow> count_list path (CHR ''/'') = 1"
  by (auto simp: getQueueName_def SplitN_def length_SplitN_from Let_def)

lemma SplitN_from_two:
  "CHR ''/'' \<notin> set pre \<Longrightarrow> CHR ''/'' \<notin> set name \<Longrightarrow>
   SplitN_from cur (CHR ''/'') 3 (pre @ CHR ''/'' # name) = [rev cur @ pre, name]"
proof (induction pre arbitrary: cur)
  case Nil
  have "SplitN_from c (CHR ''/'') 2 name = [rev c @ name]" if "CHR ''/'' \<notin> set name" for c
    using that by (induction name arbitrary: c) auto
  with Nil show ?case by simp
next
  case (Cons a pre)
  then show ?case by auto
qed

text \<open>The name is what follows the slash, the empty string included.\<close>

lemma getQueueName_single_slash:
  "CHR ''/'' \<notin> set pre \<Longrightarrow> CHR ''/'' \<notin> set name \<Longrightarrow>
   getQueueName (pre @ CHR ''/'' # name) = (name, True)"
  by (simp add: getQueueName_def SplitN_def SplitN_from_two)

text \<open>A request whose path is not accepted is answered 400 and the state is untouched.\<close>

lemma rejected_before_core:
  "\<not> snd (getQueueName (Path u)) \<Longrightarrow>
   putQueueHandler s u = Returns (s, BadRequest) \<and> getQueueHandler s u = (s, Respond BadRequest)"
  by (cases "getQueueName (Path u)") (simp add: putQueueHandler_def getQueueHandler_def)

text \<open>
  Claim C9. The claim asks that a request with an absent or empty name be rejected before
  the store or the registry is used. For the path \<open>/\<close> the code does not reject:
  \<^verbatim>\<open>SplitN\<close> gives two empty pieces, \<^verbatim>\<open>getQueueName\<close> returns the empty name with its
  flag true, a PUT pushes its message under the empty name and a GET pops it.
\<close>

theorem empty_name_accepted:
  "getQueueName ''/'' = ('''', True) \<and>
   putQueueHandler newServer \<lparr>Path = ''/'', Query = [(''v'', ''x'')]\<rparr>
     = Returns (newServer\<lparr>store := ['''' \<mapsto> [''x'']]\<rparr>, Ok '''') \<and>
   getQueueHandler (newServer\<lparr>store := ['''' \<mapsto> [''x'']]\<rparr>) \<lparr>Path = ''/'', Query = []\<rparr>
     = (newServer\<lparr>store := Map.empty\<rparr>, Respond (Ok ''x''))"
  by (simp add: getQueueName_def SplitN_def putQueueHandler_def getQueueMessage_def Get_def
        produce_def sendMessage_def newServer_def NewHandlerPool_def newStore_def push_def
        getQueueHandler_def getRequestTimeout_def consume_def pop_def)

section \<open>The wait duration\<close>

lemma ParseInt_nonempty: "ParseInt str = Some t \<Longrightarrow> str \<noteq> ''''"
  by (auto simp: ParseInt_def)

lemma ParseInt_range: "ParseInt str = Some t \<Longrightarrow> - (2 ^ 63) \<le> t \<and> t < 2 ^ 63"
  by (auto simp: ParseInt_def Let_def split: if_splits option.splits)

lemma getRequestTimeout_parsed:
  "Get (Query u) ''timeout'' = str \<Longrightarrow> ParseInt str = Some t \<Longrightarrow>
   getRequestTimeout u = (word_of_int t * Second, True)"
  using ParseInt_nonempty [of str t] by (simp add: getRequestTimeout_def)

text \<open>The product \<open>t * Second\<close>, read as a signed number of nanoseconds, is \<open>t\<close> seconds
  exactly when it fits 64 bits.\<close>

lemma sint_seconds:
  "sint (word_of_int t * Second) = t * 1000000000 \<longleftrightarrow> - 9223372036 \<le> t \<and> t \<le> 9223372036"
proof -
  have e: "word_of_int t * Second = (word_of_int (t * 1000000000) :: 64 word)"
    by (simp add: Second_def)
  have "sint (word_of_int (t * 1000000000) :: 64 word) = signed_take_bit 63 (t * 1000000000)"
    by (simp only: sint_sbintrunc') simp
  then have "sint (word_of_int t * Second) = signed_take_bit 63 (t * 1000000000)"
    by (simp only: e)
  moreover have "- (2 ^ 63) \<le> t * 1000000000 \<and> t * 1000000000 < 2 ^ 63
      \<longleftrightarrow> - 9223372036 \<le> t \<and> t \<le> 9223372036"
    by simp linarith
  ultimately show ?thesis
    by (simp only: signed_take_bit_int_eq_self_iff)
qed

text \<open>
  Claim C10, amended. When the \<open>timeout\<close> parameter parses as the 64-bit integer
  \<open>t\<close>, zero and negative values included, \<^verbatim>\<open>getRequestTimeout\<close> reports a wait and
  returns the 64-bit product of \<open>t\<close> and \<^verbatim>\<open>time.Second\<close>. That product is \<open>t\<close>
  seconds exactly when \<open>t\<close> lies between \<open>-9223372036\<close> and \<open>9223372036\<close>; beyond that it
  has wrapped. Nothing checks the value: with no buffered message the handler waits with
  that very duration.
\<close>

theorem timeout_seconds_wrap:
  "Get (Query u) ''timeout'' = str \<and> ParseInt str = Some t \<longrightarrow>
     getRequestTimeout u = (word_of_int t * Second, True) \<and>
     (sint (fst (getRequestTimeout u)) = t * 1000000000
        \<longleftrightarrow> - 9223372036 \<le> t \<and> t \<le> 9223372036) \<and>
     (\<forall>s name. getQueueName (Path u) = (name, True) \<and> index_or_nil (store s name) = [] \<longrightarrow>
        snd (getQueueHandler s u) = Wait (nextChan s) (word_of_int t * Second))"
proof
  assume a: "Get (Query u) ''timeout'' = str \<and> ParseInt str = Some t"
  then have g: "getRequestTimeout u = (word_of_int t * Second, True)"
    by (simp add: getRequestTimeout_parsed)
  have w: "snd (getQueueHandler s u) = Wait (nextChan s) (word_of_int t * Second)"
    if "getQueueName (Path u) = (name, True) \<and> index_or_nil (store s name) = []" for s name
    using that by (simp add: getQueueHandler_def g consume_wait)
  have r: "sint (fst (getRequestTimeout u)) = t * 1000000000
        \<longleftrightarrow> - 9223372036 \<le> t \<and> t \<le> 9223372036"
    by (simp add: g sint_seconds)
  from g r w show "getRequestTimeout u = (word_of_int t * Second, True) \<and>
     (sint (fst (getRequestTimeout u)) = t * 1000000000
        \<longleftrightarrow> - 9223372036 \<le> t \<and> t \<le> 9223372036) \<and>
     (\<forall>s name. getQueueName (Path u) = (name, True) \<and> index_or_nil (store s name) = [] \<longrightarrow>
        snd (getQueueHandler s u) = Wait (nextChan s) (word_of_int t * Second))"
    by blast
qed

theorem timeout_seconds_wrap_witness:
  "getRequestTimeout \<lparr>Path = ''/q'', Query = [(''timeout'', ''-3'')]\<rparr>
     = (word_of_int (- 3) * Second, True) \<and>
   sint (fst (getRequestTimeout \<lparr>Path = ''/q'', Query = [(''timeout'', ''-3'')]\<rparr>))
     = - 3 * 1000000000 \<and>
   snd (getQueueHandler newServer \<lparr>Path = ''/q'', Query = [(''timeout'', ''-3'')]\<rparr>)
     = Wait 0 (word_of_int (- 3) * Second)"
proof -
  let ?u = "\<lparr>Path = ''/q'', Query = [(''timeout'', ''-3'')]\<rparr>"
  have a: "Get (Query ?u) ''timeout'' = ''-3'' \<and> ParseInt ''-3'' = Some (- 3)"
    by (simp add: Get_def ParseInt_def ParseUint_def digitVal_def)
  have c: "getQueueName (Path ?u) = (''q'', True) \<and> index_or_nil (store newServer ''q'') = []"
    by (simp add: getQueueName_def SplitN_def newServer_def newStore_def)
  have e: "nextChan newServer = 0"
    by (simp add: newServer_def)
  have r: "- 9223372036 \<le> (- 3 :: int) \<and> (- 3 :: int) \<le> 9223372036"
    by simp
  note th = timeout_seconds_wrap [of ?u "''-3''" "- 3", THEN mp, OF a]
  from th have 1: "getRequestTimeout ?u = (word_of_int (- 3) * Second, True)"
    by (rule conjunct1)
  from th r have 2: "sint (fst (getRequestTimeout ?u)) = - 3 * 1000000000"
    by blast
  from th c have "snd (getQueueHandler newServer ?u)
      = Wait (nextChan newServer) (word_of_int (- 3) * Second)"
    by blast
  then have 3: "snd (getQueueHandler newServer ?u) = Wait 0 (word_of_int (- 3) * Second)"
    by (simp only: e)
  from 1 2 3 show ?thesis
    by (intro conjI)
qed

text \<open>
  The parameter \<open>9223372037\<close> parses, a wait is reported, and the duration returned is
  negative: it is not 9223372037 seconds.
\<close>

theorem timeout_overflow_counterexample:
  "ParseInt ''9223372037'' = Some 9223372037 \<and>
   snd (getRequestTimeout \<lparr>Path = ''/q'', Query = [(''timeout'', ''9223372037'')]\<rparr>) = True \<and>
   sint (fst (getRequestTimeout \<lparr>Path = ''/q'', Query = [(''timeout'', ''9223372037'')]\<rparr>))
     = - 9223372036709551616"
  by (simp add: getRequestTimeout_def Get_def ParseInt_def ParseUint_def digitVal_def Second_def)

section \<open>Handles are registered once\<close>

lemma handles_fresh_newServer: "handles_fresh newServer"
  by (simp add: handles_fresh_def newServer_def NewHandlerPool_def)

lemma handles_fresh_consume:
  "handles_fresh s \<Longrightarrow> handles_fresh (fst (consume s name t hasTimeout))"
  by (fastforce simp: handles_fresh_def consume_def addToQueue_def Let_def
        split: prod.splits if_splits)

lemma handles_fresh_produce:
  "handles_fresh s \<Longrightarrow> produce s name msg = Returns s' \<Longrightarrow> handles_fresh s'"
  by (auto simp: handles_fresh_def produce_def split: outcome.splits if_splits prod.splits)

lemma handles_fresh_leaveQueue:
  assumes "handles_fresh s" and "leaveQueue s name ch r = Returns (s', r')"
  shows "handles_fresh s'"
proof -
  from assms(2) obtain p h where p: "removeFromQueue (pool s) name ch = Returns p"
    and s': "s' = s\<lparr>pool := p, chans := h\<rparr>"
    by (auto simp: leaveQueue_def split: outcome.splits)
  have "distinct (index_or_nil (p k)) \<and> (\<forall>c \<in> set (index_or_nil (p k)). c < nextChan s)" for k
    using removeFromQueue_lookup [OF p, of k] assms(1)
    by (auto simp: handles_fresh_def dest: notin_set_remove1)
  then show ?thesis
    by (simp add: handles_fresh_def s')
qed

end
